theory Spec2Isabelle
  imports Main
begin

section \<open>Data model\<close>

text \<open>
  \<^verbatim>\<open>class Node { constructor(data, left = null, right = null) }\<close>.
  A value of type \<open>'a node\<close> is what a variable documented as \<^verbatim>\<open>?Node\<close> holds:
  \<open>Null\<close> is JavaScript's \<^verbatim>\<open>null\<close>, \<open>Node d l r\<close> is a node object with its three
  fields. Nodes are owned by their parent and never shared, so the in-place assignments
  \<^verbatim>\<open>node.left = ...\<close>, \<^verbatim>\<open>node.right = ...\<close> and \<^verbatim>\<open>node.data = ...\<close> of the source are
  modelled by rebuilding the node.

  The keys are JavaScript numbers other than \<^verbatim>\<open>NaN\<close> (every entry point rejects
  \<^verbatim>\<open>NaN\<close>). The source compares them only with \<^verbatim>\<open>===\<close>, \<^verbatim>\<open><\<close>, \<^verbatim>\<open>>\<close>, the
  membership test of \<^verbatim>\<open>Set\<close> and the sign of \<^verbatim>\<open>a - b\<close>, under all of which they
  form a linear order; the key type is therefore any \<open>'a::linorder\<close>.
\<close>

datatype 'a node = Null | Node (data: 'a) (left: "'a node") (right: "'a node")

text \<open>\<^verbatim>\<open>class Tree\<close> has the single field \<^verbatim>\<open>root\<close>.\<close>

record 'a tree =
  root :: "'a node"

text \<open>
  The source throws plain \<^verbatim>\<open>Error\<close> objects; they are told apart by the check that
  raises them. \<open>ConversionError\<close> is thrown after \<^verbatim>\<open>isNaN(value)\<close>, \<open>CallbackError\<close>
  after \<^verbatim>\<open>typeof callback !== "function"\<close>. \<open>TypeError\<close> is the error of the
  JavaScript runtime itself: calling a value that is not a function, reading a
  property of \<^verbatim>\<open>null\<close> or \<^verbatim>\<open>undefined\<close>, or converting a Symbol or a BigInt to a
  number.
\<close>

datatype error = ConversionError | CallbackError | TypeError

text \<open>
  An argument of \<^verbatim>\<open>insert\<close>, \<^verbatim>\<open>deleteItem\<close>, \<^verbatim>\<open>find\<close> or an element of the
  constructor's array is a JavaScript value, and the source looks at it only through
  \<^verbatim>\<open>isNaN(value)\<close> and \<^verbatim>\<open>Number(value)\<close>. The values of the model are the
  primitive values, for which the conversion to a number is a function of the value
  alone. They are represented by what that conversion does:
  \<^item> \<open>Coercible x\<close>: the conversion gives the number \<open>x\<close> (a number other than
    \<^verbatim>\<open>NaN\<close>, a numeric string, a boolean, \<^verbatim>\<open>null\<close>);
  \<^item> \<open>NonNumeric\<close>: the conversion gives \<^verbatim>\<open>NaN\<close> (\<^verbatim>\<open>NaN\<close> itself, \<^verbatim>\<open>undefined\<close>, any
    other string);
  \<^item> \<open>Symbol\<close> and \<open>BigInt\<close>: the conversion itself throws a \<^verbatim>\<open>TypeError\<close>.

  An object is converted by calling its \<^verbatim>\<open>valueOf\<close> or \<^verbatim>\<open>toString\<close>, which is user
  code that may answer differently at each call and may have effects; objects are not
  values of the model. An array is a list of values, without holes.
\<close>

datatype 'a js_value = Coercible 'a | NonNumeric | Symbol | BigInt

text \<open>A JavaScript number, as a conversion returns it.\<close>

datatype 'a js_number = NaN | Num 'a

text \<open>
  The conversion \<^verbatim>\<open>ToNumber\<close> of the language, which \<^verbatim>\<open>isNaN(value)\<close> applies to its
  argument, and \<^verbatim>\<open>Number(value)\<close> after it.
\<close>

fun ToNumber :: "'a js_value \<Rightarrow> error + 'a js_number" where
  "ToNumber (Coercible x) = Inr (Num x)"
| "ToNumber NonNumeric = Inr NaN"
| "ToNumber Symbol = Inl TypeError"
| "ToNumber BigInt = Inl TypeError"

text \<open>\<^verbatim>\<open>isNaN(value)\<close>: converts, then tests the number.\<close>

definition isNaN :: "'a js_value \<Rightarrow> error + bool" where
  "isNaN v =
     (case ToNumber v of
        Inl e \<Rightarrow> Inl e
      | Inr NaN \<Rightarrow> Inr True
      | Inr (Num x) \<Rightarrow> Inr False)"

text \<open>
  What a parameter of a private method holds at run time: \<open>Undefined\<close> when the call
  leaves the argument out, \<open>Ref n\<close> for a node or \<^verbatim>\<open>null\<close>.
\<close>

datatype 'a arg = Undefined | Ref "'a node"

text \<open>
  A method with effects returns its outcome, normal (\<open>Inr\<close>) or thrown (\<open>Inl\<close>),
  together with the state it leaves behind. A callback is user code: it receives one
  argument and acts on a state \<open>'s\<close> of its own (for instance the array it pushes to);
  it may throw. The value bound to a \<^verbatim>\<open>callback\<close> parameter is either such a function
  or something that cannot be called.
\<close>

type_synonym ('r, 's) outcome = "(error + 'r) \<times> 's"

type_synonym ('a, 's) fn = "'a arg \<Rightarrow> 's \<Rightarrow> (unit, 's) outcome"

datatype ('a, 's) callback = Function "('a, 's) fn" | NonFunction "'a arg"

text \<open>\<^verbatim>\<open>typeof callback === "function"\<close>\<close>

fun is_function :: "('a, 's) callback \<Rightarrow> bool" where
  "is_function (Function f) = True"
| "is_function (NonFunction v) = False"

text \<open>\<^verbatim>\<open>callback(node)\<close>: calling a value that is not a function is a \<^verbatim>\<open>TypeError\<close>.\<close>

fun call :: "('a, 's) callback \<Rightarrow> 'a arg \<Rightarrow> 's \<Rightarrow> (unit, 's) outcome" where
  "call (Function f) a s = f a s"
| "call (NonFunction v) a s = (Inl TypeError, s)"

section \<open>Depth-first traversals\<close>

text \<open>
  \<^verbatim>\<open>#inOrderRec(callback, node)\<close>. With \<^verbatim>\<open>node\<close> undefined the test
  \<^verbatim>\<open>node === null\<close> is false and \<^verbatim>\<open>node.left\<close> throws.
\<close>

fun inOrderRec :: "('a, 's) callback \<Rightarrow> 'a arg \<Rightarrow> 's \<Rightarrow> (unit, 's) outcome" where
  "inOrderRec callback (Ref Null) s = (Inr (), s)"
| "inOrderRec callback Undefined s = (Inl TypeError, s)"
| "inOrderRec callback (Ref (Node d l r)) s =
     (case inOrderRec callback (Ref l) s of
        (Inl e, s1) \<Rightarrow> (Inl e, s1)
      | (Inr u, s1) \<Rightarrow>
          (case call callback (Ref (Node d l r)) s1 of
             (Inl e, s2) \<Rightarrow> (Inl e, s2)
           | (Inr u, s2) \<Rightarrow> inOrderRec callback (Ref r) s2))"

text \<open>
  \<^verbatim>\<open>#preOrderRec(callback, node)\<close>. The two recursive calls are written
  \<^verbatim>\<open>this.#preOrderRec(node.left)\<close> and \<^verbatim>\<open>this.#preOrderRec(node.right)\<close>: the child is
  bound to the parameter \<^verbatim>\<open>callback\<close> and \<^verbatim>\<open>node\<close> is left undefined. With
  \<^verbatim>\<open>node\<close> undefined the test \<^verbatim>\<open>node === null\<close> is false, \<^verbatim>\<open>callback(node)\<close> is
  evaluated, and \<^verbatim>\<open>node.left\<close> throws afterwards.
\<close>

fun preOrderRec :: "('a, 's) callback \<Rightarrow> 'a arg \<Rightarrow> 's \<Rightarrow> (unit, 's) outcome" where
  "preOrderRec callback (Ref Null) s = (Inr (), s)"
| "preOrderRec callback Undefined s =
     (case call callback Undefined s of
        (Inl e, s1) \<Rightarrow> (Inl e, s1)
      | (Inr u, s1) \<Rightarrow> (Inl TypeError, s1))"
| "preOrderRec callback (Ref (Node d l r)) s =
     (case call callback (Ref (Node d l r)) s of
        (Inl e, s1) \<Rightarrow> (Inl e, s1)
      | (Inr u, s1) \<Rightarrow>
          (case preOrderRec (NonFunction (Ref l)) Undefined s1 of
             (Inl e, s2) \<Rightarrow> (Inl e, s2)
           | (Inr u, s2) \<Rightarrow> preOrderRec (NonFunction (Ref r)) Undefined s2))"

text \<open>
  \<^verbatim>\<open>#postOrderRec(callback, node)\<close>, whose recursive calls are written
  \<^verbatim>\<open>this.#postOrderRec(node.left)\<close> and \<^verbatim>\<open>this.#postOrderRec(node.right)\<close> in the same
  way. With \<^verbatim>\<open>node\<close> undefined, evaluating the argument \<^verbatim>\<open>node.left\<close> of the first
  recursive call throws.
\<close>

fun postOrderRec :: "('a, 's) callback \<Rightarrow> 'a arg \<Rightarrow> 's \<Rightarrow> (unit, 's) outcome" where
  "postOrderRec callback (Ref Null) s = (Inr (), s)"
| "postOrderRec callback Undefined s = (Inl TypeError, s)"
| "postOrderRec callback (Ref (Node d l r)) s =
     (case postOrderRec (NonFunction (Ref l)) Undefined s of
        (Inl e, s1) \<Rightarrow> (Inl e, s1)
      | (Inr u, s1) \<Rightarrow>
          (case postOrderRec (NonFunction (Ref r)) Undefined s1 of
             (Inl e, s2) \<Rightarrow> (Inl e, s2)
           | (Inr u, s2) \<Rightarrow> call callback (Ref (Node d l r)) s2))"

text \<open>
  The public traversals check the callback, then start the recursion at the root. They
  return the outcome and the callback's state, and the tree object as they leave it.
\<close>

definition inOrder ::
  "('a, 's) callback \<Rightarrow> 's \<Rightarrow> 'a tree \<Rightarrow> (unit, 's) outcome \<times> 'a tree" where
  "inOrder callback s t =
     (if \<not> is_function callback then ((Inl CallbackError, s), t)
      else (inOrderRec callback (Ref (root t)) s, t))"

definition preOrder ::
  "('a, 's) callback \<Rightarrow> 's \<Rightarrow> 'a tree \<Rightarrow> (unit, 's) outcome \<times> 'a tree" where
  "preOrder callback s t =
     (if \<not> is_function callback then ((Inl CallbackError, s), t)
      else (preOrderRec callback (Ref (root t)) s, t))"

definition postOrder ::
  "('a, 's) callback \<Rightarrow> 's \<Rightarrow> 'a tree \<Rightarrow> (unit, 's) outcome \<times> 'a tree" where
  "postOrder callback s t =
     (if \<not> is_function callback then ((Inl CallbackError, s), t)
      else (postOrderRec callback (Ref (root t)) s, t))"

text \<open>
  The callback \<^verbatim>\<open>(node) => data.push(node.data)\<close> of \<^verbatim>\<open>rebalance\<close>; its state is the
  array \<^verbatim>\<open>data\<close>. Reading \<^verbatim>\<open>.data\<close> of \<^verbatim>\<open>null\<close> or \<^verbatim>\<open>undefined\<close> throws.
\<close>

fun push :: "('a, 'a list) fn" where
  "push (Ref (Node d l r)) acc = (Inr (), acc @ [d])"
| "push (Ref Null) acc = (Inl TypeError, acc)"
| "push Undefined acc = (Inl TypeError, acc)"

section \<open>Construction\<close>

text \<open>
  \<^verbatim>\<open>array.map((item) => { if (isNaN(item)) throw ...; return Number(item); })\<close>:
  the elements are converted from left to right, and the first one whose conversion throws
  or gives \<^verbatim>\<open>NaN\<close> ends the construction. For a value of the model
  \<^verbatim>\<open>Number(item)\<close> returns what \<^verbatim>\<open>isNaN(item)\<close> has tested.
\<close>

fun processArray_map :: "'a js_value list \<Rightarrow> error + 'a list" where
  "processArray_map [] = Inr []"
| "processArray_map (item # items) =
     (case ToNumber item of
        Inl e \<Rightarrow> Inl e
      | Inr NaN \<Rightarrow> Inl ConversionError
      | Inr (Num x) \<Rightarrow>
          (case processArray_map items of
             Inl e \<Rightarrow> Inl e
           | Inr nums \<Rightarrow> Inr (x # nums)))"

text \<open>
  \<^verbatim>\<open>[...new Set(nums)]\<close>: the elements of \<^verbatim>\<open>nums\<close> in the order of their first
  occurrence; \<open>seen\<close> is the set built so far.
\<close>

fun new_Set :: "'a list \<Rightarrow> 'a list \<Rightarrow> 'a list" where
  "new_Set seen [] = seen"
| "new_Set seen (x # nums) = new_Set (if x \<in> set seen then seen else seen @ [x]) nums"

text \<open>
  \<^verbatim>\<open>#processArray(array)\<close>. \<^verbatim>\<open>.sort((a, b) => a - b)\<close> sorts in ascending numeric
  order, which is \<^const>\<open>sort\<close>.
\<close>

definition processArray :: "'a::linorder js_value list \<Rightarrow> error + 'a list" where
  "processArray array =
     (case processArray_map array of
        Inl e \<Rightarrow> Inl e
      | Inr nums \<Rightarrow> Inr (sort (new_Set [] nums)))"

text \<open>
  \<^verbatim>\<open>#buildTree(array)\<close>. \<^verbatim>\<open>array.slice(0, mid)\<close> is \<open>take mid array\<close> and
  \<^verbatim>\<open>array.slice(mid + 1)\<close> is \<open>drop (mid + 1) array\<close>; \<^verbatim>\<open>array[mid]\<close> is read only
  when the array is not empty, where \<open>mid\<close> is in range.
\<close>

function buildTree :: "'a list \<Rightarrow> 'a node" where
  "buildTree array =
     (if length array = 0 then Null
      else
        (let mid = length array div 2
         in Node (array ! mid) (buildTree (take mid array)) (buildTree (drop (mid + 1) array))))"
  by pat_completeness auto
termination
  by (relation "measure length") auto

declare buildTree.simps [simp del]

text \<open>\<^verbatim>\<open>constructor(array)\<close>: an exception leaves no tree object behind.\<close>

definition new_Tree :: "'a::linorder js_value list \<Rightarrow> error + 'a tree" where
  "new_Tree array =
     (case processArray array of
        Inl e \<Rightarrow> Inl e
      | Inr nums \<Rightarrow> Inr \<lparr>root = buildTree nums\<rparr>)"

section \<open>Insertion, deletion, lookup\<close>

text \<open>\<^verbatim>\<open>#insertRec(value, node)\<close>\<close>

fun insertRec :: "'a::linorder \<Rightarrow> 'a node \<Rightarrow> 'a node" where
  "insertRec v Null = Node v Null Null"
| "insertRec v (Node d l r) =
     (if d = v then Node d l r
      else if d < v then Node d l (insertRec v r)
      else Node d (insertRec v l) r)"

text \<open>
  \<^verbatim>\<open>insert(value)\<close>. \<^verbatim>\<open>isNaN(value)\<close> converts the value: a conversion that throws
  ends the call with its error, the result \<^verbatim>\<open>NaN\<close> makes the method throw its own
  error, and otherwise \<^verbatim>\<open>Number(value)\<close> is the number that was tested.
\<close>

definition insert_value :: "'a::linorder js_value \<Rightarrow> 'a tree \<Rightarrow> (unit, 'a tree) outcome" where
  "insert_value v t =
     (case ToNumber v of
        Inl e \<Rightarrow> (Inl e, t)
      | Inr NaN \<Rightarrow> (Inl ConversionError, t)
      | Inr (Num x) \<Rightarrow> (Inr (), t\<lparr>root := insertRec x (root t)\<rparr>))"

text \<open>The loop of \<^verbatim>\<open>#nextItem\<close>: \<^verbatim>\<open>while (node !== null && node.left !== null)\<close>.\<close>

fun nextItem_while :: "'a node \<Rightarrow> 'a node" where
  "nextItem_while Null = Null"
| "nextItem_while (Node d l r) = (if l \<noteq> Null then nextItem_while l else Node d l r)"

text \<open>\<^verbatim>\<open>#nextItem(node)\<close>: \<^verbatim>\<open>node.right\<close> is read first.\<close>

fun nextItem :: "'a node \<Rightarrow> error + 'a node" where
  "nextItem Null = Inl TypeError"
| "nextItem (Node d l r) = Inr (nextItem_while r)"

text \<open>
  \<^verbatim>\<open>#deleteItemRec(value, node)\<close>. In the last branch \<^verbatim>\<open>nextNode.data\<close> is read, which
  throws when \<^verbatim>\<open>nextNode\<close> is \<^verbatim>\<open>null\<close>.
\<close>

fun deleteItemRec :: "'a::linorder \<Rightarrow> 'a node \<Rightarrow> error + 'a node" where
  "deleteItemRec v Null = Inr Null"
| "deleteItemRec v (Node d l r) =
     (if d < v then
        (case deleteItemRec v r of
           Inl e \<Rightarrow> Inl e
         | Inr r' \<Rightarrow> Inr (Node d l r'))
      else if d > v then
        (case deleteItemRec v l of
           Inl e \<Rightarrow> Inl e
         | Inr l' \<Rightarrow> Inr (Node d l' r))
      else if l = Null then Inr r
      else if r = Null then Inr l
      else
        (case nextItem (Node d l r) of
           Inl e \<Rightarrow> Inl e
         | Inr Null \<Rightarrow> Inl TypeError
         | Inr (Node nd nl nr) \<Rightarrow>
             (case deleteItemRec nd r of
                Inl e \<Rightarrow> Inl e
              | Inr r' \<Rightarrow> Inr (Node nd l r'))))"

text \<open>\<^verbatim>\<open>deleteItem(value)\<close>: the root is assigned only when the recursion returns.\<close>

definition deleteItem :: "'a::linorder js_value \<Rightarrow> 'a tree \<Rightarrow> (unit, 'a tree) outcome" where
  "deleteItem v t =
     (case ToNumber v of
        Inl e \<Rightarrow> (Inl e, t)
      | Inr NaN \<Rightarrow> (Inl ConversionError, t)
      | Inr (Num x) \<Rightarrow>
          (case deleteItemRec x (root t) of
             Inl e \<Rightarrow> (Inl e, t)
           | Inr n \<Rightarrow> (Inr (), t\<lparr>root := n\<rparr>)))"

text \<open>\<^verbatim>\<open>#findRec(value, node)\<close>\<close>

fun findRec :: "'a::linorder \<Rightarrow> 'a node \<Rightarrow> 'a node" where
  "findRec v Null = Null"
| "findRec v (Node d l r) =
     (if d = v then Node d l r
      else if d < v then findRec v r
      else findRec v l)"


section \<open>Level order\<close>

text \<open>
  The \<^verbatim>\<open>for\<close> loop of \<^verbatim>\<open>levelOrder\<close>; the first numeric argument is the number of
  iterations still to run, \<^verbatim>\<open>levelSize - i\<close>. \<^verbatim>\<open>queue.shift()\<close> of an empty array is
  \<^verbatim>\<open>undefined\<close>; after the callback, \<^verbatim>\<open>node.left\<close> throws when the node is \<^verbatim>\<open>null\<close>
  or \<^verbatim>\<open>undefined\<close>.
\<close>

fun levelOrder_for ::
  "('a, 's) callback \<Rightarrow> nat \<Rightarrow> 'a node list \<Rightarrow> 's \<Rightarrow> ('a node list, 's) outcome" where
  "levelOrder_for callback 0 queue s = (Inr queue, s)"
| "levelOrder_for callback (Suc k) [] s =
     (case call callback Undefined s of
        (Inl e, s1) \<Rightarrow> (Inl e, s1)
      | (Inr u, s1) \<Rightarrow> (Inl TypeError, s1))"
| "levelOrder_for callback (Suc k) (Null # queue) s =
     (case call callback (Ref Null) s of
        (Inl e, s1) \<Rightarrow> (Inl e, s1)
      | (Inr u, s1) \<Rightarrow> (Inl TypeError, s1))"
| "levelOrder_for callback (Suc k) (Node d l r # queue) s =
     (case call callback (Ref (Node d l r)) s of
        (Inl e, s1) \<Rightarrow> (Inl e, s1)
      | (Inr u, s1) \<Rightarrow>
          levelOrder_for callback k
            ((queue @ (if l \<noteq> Null then [l] else [])) @ (if r \<noteq> Null then [r] else [])) s1)"

text \<open>
  The \<^verbatim>\<open>while (levelSize > 0)\<close> loop of \<^verbatim>\<open>levelOrder\<close>, ending each round with
  \<^verbatim>\<open>levelSize = queue.length\<close>. Every completed iteration of the inner loop replaces a
  node of the queue by its children, so the nodes held below the queue get fewer.
\<close>

function levelOrder_while ::
  "('a, 's) callback \<Rightarrow> nat \<Rightarrow> 'a node list \<Rightarrow> 's \<Rightarrow> (unit, 's) outcome" where
  "levelOrder_while callback levelSize queue s =
     (if levelSize > 0 then
        (case levelOrder_for callback levelSize queue s of
           (Inl e, s1) \<Rightarrow> (Inl e, s1)
         | (Inr queue', s1) \<Rightarrow> levelOrder_while callback (length queue') queue' s1)
      else (Inr (), s))"
  by pat_completeness auto
termination
proof (relation "measure (\<lambda>(callback, levelSize, queue, s). sum_list (map size queue))",
    goal_cases)
  case 1
  show ?case by simp
next
  case (2 callback levelSize queue s x y queue')
  have shrink: "sum_list (map size q') + k = sum_list (map size q)"
    if "levelOrder_for cb k q st = (Inr q', st')"
    for cb :: "('a, 's) callback" and k q st q' st'
    using that
    by (induction cb k q st rule: levelOrder_for.induct)
      (auto split: prod.splits sum.splits if_splits)
  from 2 have "levelOrder_for callback levelSize queue s = (Inr queue', y)"
    by simp
  from shrink [OF this] 2(1) show ?case
    by simp
qed

declare levelOrder_while.simps [simp del]

text \<open>\<^verbatim>\<open>levelOrder(callback)\<close>\<close>

definition levelOrder ::
  "('a, 's) callback \<Rightarrow> 's \<Rightarrow> 'a tree \<Rightarrow> (unit, 's) outcome \<times> 'a tree" where
  "levelOrder callback s t =
     (if \<not> is_function callback then ((Inl CallbackError, s), t)
      else if root t = Null then ((Inr (), s), t)
      else (levelOrder_while callback 1 [root t] s, t))"

section \<open>Shape queries and rebalancing\<close>

text \<open>
  \<^verbatim>\<open>height(node)\<close>: the recursion reads the node it is given and nothing of the tree
  object.
\<close>

fun height :: "'a node \<Rightarrow> nat" where
  "height Null = 0"
| "height (Node d l r) = max (height l) (height r) + 1"

text \<open>\<^verbatim>\<open>#isBalancedRec(node)\<close>; the difference of the two heights may be negative.\<close>

fun isBalancedRec :: "'a node \<Rightarrow> bool" where
  "isBalancedRec Null = True"
| "isBalancedRec (Node d l r) =
     (let leftHeight = height l; rightHeight = height r
      in \<bar>int leftHeight - int rightHeight\<bar> \<le> 1 \<and> isBalancedRec l \<and> isBalancedRec r)"

text \<open>\<^verbatim>\<open>isBalanced()\<close>\<close>

definition isBalanced :: "'a tree \<Rightarrow> (bool, 'a tree) outcome" where
  "isBalanced t = (Inr (isBalancedRec (root t)), t)"

text \<open>
  \<^verbatim>\<open>rebalance()\<close>: the array \<^verbatim>\<open>data\<close> (here \<open>data'\<close>) starts empty and is filled
  by \<^const>\<open>push\<close>; the root is assigned only when the traversal returns.
\<close>

definition rebalance :: "'a tree \<Rightarrow> (unit, 'a tree) outcome" where
  "rebalance t =
     (case isBalanced t of
        (Inl e, t1) \<Rightarrow> (Inl e, t1)
      | (Inr balanced, t1) \<Rightarrow>
          (if \<not> balanced then
             (case inOrder (Function push) [] t1 of
                ((Inl e, data'), t2) \<Rightarrow> (Inl e, t2)
              | ((Inr u, data'), t2) \<Rightarrow> (Inr (), t2\<lparr>root := buildTree data'\<rparr>))
           else (Inr (), t1)))"

section \<open>Reference notions of the specification\<close>

text \<open>The keys of a subtree from left to right: left subtree, node, right subtree.\<close>

fun inorder :: "'a node \<Rightarrow> 'a list" where
  "inorder Null = []"
| "inorder (Node d l r) = inorder l @ [d] @ inorder r"

text \<open>The nodes of a subtree in pre-order and in post-order.\<close>

fun preorder_nodes :: "'a node \<Rightarrow> 'a node list" where
  "preorder_nodes Null = []"
| "preorder_nodes (Node d l r) = [Node d l r] @ preorder_nodes l @ preorder_nodes r"

fun postorder_nodes :: "'a node \<Rightarrow> 'a node list" where
  "postorder_nodes Null = []"
| "postorder_nodes (Node d l r) = postorder_nodes l @ postorder_nodes r @ [Node d l r]"

text \<open>
  The invariant of the data model: at every node, the keys of the left subtree are
  smaller than the node's key and the keys of the right subtree are greater.
\<close>

fun bst :: "'a::linorder node \<Rightarrow> bool" where
  "bst Null = True"
| "bst (Node d l r) =
     (bst l \<and> bst r \<and> (\<forall>x \<in> set (inorder l). x < d) \<and> (\<forall>x \<in> set (inorder r). d < x))"

text \<open>The number of nodes of a subtree.\<close>

fun count_nodes :: "'a node \<Rightarrow> nat" where
  "count_nodes Null = 0"
| "count_nodes (Node d l r) = count_nodes l + 1 + count_nodes r"

text \<open>
  The size condition of the balanced construction: at every node the two subtrees
  differ by at most one node.
\<close>

fun size_balanced :: "'a node \<Rightarrow> bool" where
  "size_balanced Null = True"
| "size_balanced (Node d l r) =
     (\<bar>int (count_nodes l) - int (count_nodes r)\<bar> \<le> 1 \<and> size_balanced l \<and> size_balanced r)"

text \<open>
  A callback that records the key of every node it is called with, and nothing for
  \<^verbatim>\<open>null\<close> or \<^verbatim>\<open>undefined\<close>; it never throws.
\<close>

fun record_key :: "('a, 'a list) fn" where
  "record_key (Ref (Node d l r)) log = (Inr (), log @ [d])"
| "record_key (Ref Null) log = (Inr (), log)"
| "record_key Undefined log = (Inr (), log)"

text \<open>
  A call of \<^verbatim>\<open>insert\<close> or \<^verbatim>\<open>deleteItem\<close> with its argument, and a sequence of such
  calls on one tree object; an exception ends the sequence.
\<close>

datatype 'a method_call = Insert "'a js_value" | DeleteItem "'a js_value"

fun perform :: "'a::linorder method_call \<Rightarrow> 'a tree \<Rightarrow> (unit, 'a tree) outcome" where
  "perform (Insert v) t = insert_value v t"
| "perform (DeleteItem v) t = deleteItem v t"

fun perform_all :: "'a::linorder method_call list \<Rightarrow> 'a tree \<Rightarrow> (unit, 'a tree) outcome" where
  "perform_all [] t = (Inr (), t)"
| "perform_all (c # cs) t =
     (case perform c t of
        (Inl e, t1) \<Rightarrow> (Inl e, t1)
      | (Inr u, t1) \<Rightarrow> perform_all cs t1)"

text \<open>The argument of a call.\<close>

fun argument :: "'a method_call \<Rightarrow> 'a js_value" where
  "argument (Insert v) = v"
| "argument (DeleteItem v) = v"

text \<open>
  The height of the tree that the balanced construction builds from \<open>n\<close> keys: the
  left part, of \<open>n div 2\<close> keys, is never the smaller one.
\<close>

function build_height :: "nat \<Rightarrow> nat" where
  "build_height n = (if n = 0 then 0 else build_height (n div 2) + 1)"
  by pat_completeness auto
termination
  by (relation "measure id") auto

declare build_height.simps [simp del]

section \<open>The query methods over a store of node objects\<close>

text \<open>
  Whether a method changes a node cannot be said of a model in which a node is a value.
  For the methods that only read the tree, the node objects are therefore placed in a
  store: a node is known by its address, its fields hold references, and the tree object
  holds a reference to the root. A reference is \<^verbatim>\<open>undefined\<close>, \<^verbatim>\<open>null\<close> or the
  address of a node object.
\<close>

type_synonym addr = nat

datatype pointer = PUndefined | PNull | PNode addr

text \<open>
  A node object with its three fields.
\<close>

record 'a node_object =
  data_field :: 'a
  left_field :: pointer
  right_field :: pointer

text \<open>
  The state a method runs in: every node object, and the field \<^verbatim>\<open>root\<close> of the tree
  object.
\<close>

record 'a memory =
  objects :: "addr \<Rightarrow> 'a node_object"
  tree_root :: pointer

text \<open>
  A callback receives a reference. It runs on its own state and on the whole memory, so
  it is able to assign to the fields of any node and to the root.
\<close>

type_synonym ('a, 's) st_fn = "pointer \<Rightarrow> 's \<times> 'a memory \<Rightarrow> (unit, 's \<times> 'a memory) outcome"

datatype ('a, 's) st_callback = St_Function "('a, 's) st_fn" | St_NonFunction

fun st_is_function :: "('a, 's) st_callback \<Rightarrow> bool" where
  "st_is_function (St_Function f) = True"
| "st_is_function St_NonFunction = False"

fun st_call ::
  "('a, 's) st_callback \<Rightarrow> pointer \<Rightarrow> 's \<times> 'a memory \<Rightarrow> (unit, 's \<times> 'a memory) outcome" where
  "st_call (St_Function f) p st = f p st"
| "st_call St_NonFunction p st = (Inl TypeError, st)"

text \<open>
  The recursive methods follow references, and on a store in which the references form a
  cycle they do not return. Their first argument bounds the nesting depth of the calls;
  the result \<open>None\<close> says that the bound was reached. Each call returns the memory as it
  leaves it, and every read of a field is a read of the memory at that moment.

  \<^verbatim>\<open>#findRec(value, node)\<close>: with \<^verbatim>\<open>node\<close> undefined, \<^verbatim>\<open>node.data\<close> throws.
\<close>

fun st_findRec ::
  "nat \<Rightarrow> 'a::linorder \<Rightarrow> pointer \<Rightarrow> 'a memory \<Rightarrow> (pointer, 'a memory) outcome option" where
  "st_findRec 0 v node m = None"
| "st_findRec (Suc depth) v PNull m = Some (Inr PNull, m)"
| "st_findRec (Suc depth) v PUndefined m = Some (Inl TypeError, m)"
| "st_findRec (Suc depth) v (PNode a) m =
     (if data_field (objects m a) = v then Some (Inr (PNode a), m)
      else if data_field (objects m a) < v then st_findRec depth v (right_field (objects m a)) m
      else st_findRec depth v (left_field (objects m a)) m)"

text \<open>
  \<^verbatim>\<open>find(value)\<close>
\<close>

definition st_find ::
  "nat \<Rightarrow> 'a::linorder js_value \<Rightarrow> 'a memory \<Rightarrow> (pointer, 'a memory) outcome option" where
  "st_find depth v m =
     (case ToNumber v of
        Inl e \<Rightarrow> Some (Inl e, m)
      | Inr NaN \<Rightarrow> Some (Inl ConversionError, m)
      | Inr (Num x) \<Rightarrow> st_findRec depth x (tree_root m) m)"

text \<open>
  \<^verbatim>\<open>height(node)\<close>: the height of the left child is computed first, then
  \<^verbatim>\<open>node.right\<close> is read.
\<close>

fun st_height :: "nat \<Rightarrow> pointer \<Rightarrow> 'a memory \<Rightarrow> (nat, 'a memory) outcome option" where
  "st_height 0 node m = None"
| "st_height (Suc depth) PNull m = Some (Inr 0, m)"
| "st_height (Suc depth) PUndefined m = Some (Inl TypeError, m)"
| "st_height (Suc depth) (PNode a) m =
     (case st_height depth (left_field (objects m a)) m of
        None \<Rightarrow> None
      | Some (Inl e, m1) \<Rightarrow> Some (Inl e, m1)
      | Some (Inr hl, m1) \<Rightarrow>
          (case st_height depth (right_field (objects m1 a)) m1 of
             None \<Rightarrow> None
           | Some (Inl e, m2) \<Rightarrow> Some (Inl e, m2)
           | Some (Inr hr, m2) \<Rightarrow> Some (Inr (max hl hr + 1), m2)))"

text \<open>
  \<^verbatim>\<open>#isBalancedRec(node)\<close>: both heights, then the test, then the two recursive
  calls, each only when everything before it was true.
\<close>

fun st_isBalancedRec :: "nat \<Rightarrow> pointer \<Rightarrow> 'a memory \<Rightarrow> (bool, 'a memory) outcome option" where
  "st_isBalancedRec 0 node m = None"
| "st_isBalancedRec (Suc depth) PNull m = Some (Inr True, m)"
| "st_isBalancedRec (Suc depth) PUndefined m = Some (Inl TypeError, m)"
| "st_isBalancedRec (Suc depth) (PNode a) m =
     (case st_height depth (left_field (objects m a)) m of
        None \<Rightarrow> None
      | Some (Inl e, m1) \<Rightarrow> Some (Inl e, m1)
      | Some (Inr leftHeight, m1) \<Rightarrow>
          (case st_height depth (right_field (objects m1 a)) m1 of
             None \<Rightarrow> None
           | Some (Inl e, m2) \<Rightarrow> Some (Inl e, m2)
           | Some (Inr rightHeight, m2) \<Rightarrow>
               (if \<not> \<bar>int leftHeight - int rightHeight\<bar> \<le> 1 then Some (Inr False, m2)
                else
                  (case st_isBalancedRec depth (left_field (objects m2 a)) m2 of
                     None \<Rightarrow> None
                   | Some (Inl e, m3) \<Rightarrow> Some (Inl e, m3)
                   | Some (Inr False, m3) \<Rightarrow> Some (Inr False, m3)
                   | Some (Inr True, m3) \<Rightarrow>
                       st_isBalancedRec depth (right_field (objects m3 a)) m3))))"

text \<open>
  \<^verbatim>\<open>isBalanced()\<close>
\<close>

definition st_isBalanced :: "nat \<Rightarrow> 'a memory \<Rightarrow> (bool, 'a memory) outcome option" where
  "st_isBalanced depth m = st_isBalancedRec depth (tree_root m) m"

text \<open>
  \<^verbatim>\<open>#inOrderRec(callback, node)\<close>: \<^verbatim>\<open>node.right\<close> is read after the callback has
  run.
\<close>

fun st_inOrderRec ::
  "nat \<Rightarrow> ('a, 's) st_callback \<Rightarrow> pointer \<Rightarrow> 's \<times> 'a memory \<Rightarrow>
     (unit, 's \<times> 'a memory) outcome option" where
  "st_inOrderRec 0 callback node st = None"
| "st_inOrderRec (Suc depth) callback PNull st = Some (Inr (), st)"
| "st_inOrderRec (Suc depth) callback PUndefined st = Some (Inl TypeError, st)"
| "st_inOrderRec (Suc depth) callback (PNode a) st =
     (case st_inOrderRec depth callback (left_field (objects (snd st) a)) st of
        None \<Rightarrow> None
      | Some (Inl e, st1) \<Rightarrow> Some (Inl e, st1)
      | Some (Inr u, st1) \<Rightarrow>
          (case st_call callback (PNode a) st1 of
             (Inl e, st2) \<Rightarrow> Some (Inl e, st2)
           | (Inr u, st2) \<Rightarrow>
               st_inOrderRec depth callback (right_field (objects (snd st2) a)) st2))"

text \<open>
  \<^verbatim>\<open>inOrder(callback)\<close>
\<close>

definition st_inOrder ::
  "nat \<Rightarrow> ('a, 's) st_callback \<Rightarrow> 's \<times> 'a memory \<Rightarrow> (unit, 's \<times> 'a memory) outcome option" where
  "st_inOrder depth callback st =
     (if \<not> st_is_function callback then Some (Inl CallbackError, st)
      else st_inOrderRec depth callback (tree_root (snd st)) st)"

text \<open>
  The \<^verbatim>\<open>for\<close> loop of \<^verbatim>\<open>levelOrder\<close>, with the number of iterations still to run.
  \<^verbatim>\<open>queue.shift()\<close> of an empty array is \<^verbatim>\<open>undefined\<close>; the children are read after
  the callback has run, and a child is pushed when it is not \<^verbatim>\<open>null\<close>.
\<close>

fun st_levelOrder_for ::
  "('a, 's) st_callback \<Rightarrow> nat \<Rightarrow> pointer list \<Rightarrow> 's \<times> 'a memory \<Rightarrow>
     (pointer list, 's \<times> 'a memory) outcome" where
  "st_levelOrder_for callback 0 queue st = (Inr queue, st)"
| "st_levelOrder_for callback (Suc k) queue st =
     (let node = (case queue of [] \<Rightarrow> PUndefined | p # ps \<Rightarrow> p);
          queue1 = tl queue
      in case st_call callback node st of
           (Inl e, st1) \<Rightarrow> (Inl e, st1)
         | (Inr u, st1) \<Rightarrow>
             (case node of
                PUndefined \<Rightarrow> (Inl TypeError, st1)
              | PNull \<Rightarrow> (Inl TypeError, st1)
              | PNode a \<Rightarrow>
                  (let queue2 =
                         (if left_field (objects (snd st1) a) \<noteq> PNull
                          then queue1 @ [left_field (objects (snd st1) a)] else queue1);
                       queue3 =
                         (if right_field (objects (snd st1) a) \<noteq> PNull
                          then queue2 @ [right_field (objects (snd st1) a)] else queue2)
                   in st_levelOrder_for callback k queue3 st1)))"

text \<open>
  The \<^verbatim>\<open>while\<close> loop of \<^verbatim>\<open>levelOrder\<close>; its first argument bounds the number of
  rounds.
\<close>

fun st_levelOrder_while ::
  "nat \<Rightarrow> ('a, 's) st_callback \<Rightarrow> nat \<Rightarrow> pointer list \<Rightarrow> 's \<times> 'a memory \<Rightarrow>
     (unit, 's \<times> 'a memory) outcome option" where
  "st_levelOrder_while 0 callback levelSize queue st = None"
| "st_levelOrder_while (Suc rounds) callback levelSize queue st =
     (if levelSize > 0 then
        (case st_levelOrder_for callback levelSize queue st of
           (Inl e, st1) \<Rightarrow> Some (Inl e, st1)
         | (Inr queue', st1) \<Rightarrow>
             st_levelOrder_while rounds callback (length queue') queue' st1)
      else Some (Inr (), st))"

text \<open>
  \<^verbatim>\<open>levelOrder(callback)\<close>
\<close>

definition st_levelOrder ::
  "nat \<Rightarrow> ('a, 's) st_callback \<Rightarrow> 's \<times> 'a memory \<Rightarrow> (unit, 's \<times> 'a memory) outcome option" where
  "st_levelOrder rounds callback st =
     (if \<not> st_is_function callback then Some (Inl CallbackError, st)
      else if tree_root (snd st) = PNull then Some (Inr (), st)
      else st_levelOrder_while rounds callback 1 [tree_root (snd st)] st)"

text \<open>
  The store holds the tree \<open>t\<close> at the reference \<open>p\<close>: following the references
  from \<open>p\<close> gives the keys and the shape of \<open>t\<close>, ending in \<^verbatim>\<open>null\<close> at every leaf.
\<close>

fun represents :: "(addr \<Rightarrow> 'a node_object) \<Rightarrow> pointer \<Rightarrow> 'a node \<Rightarrow> bool" where
  "represents h p Null = (p = PNull)"
| "represents h p (Node d l r) =
     (case p of
        PNode a \<Rightarrow>
          data_field (h a) = d \<and> represents h (left_field (h a)) l \<and>
          represents h (right_field (h a)) r
      | PNull \<Rightarrow> False
      | PUndefined \<Rightarrow> False)"

text \<open>
  The callback \<^verbatim>\<open>(node) => data.push(node.data)\<close> of \<^verbatim>\<open>rebalance\<close>, over the store.
\<close>

fun st_push :: "('a, 'a list) st_fn" where
  "st_push (PNode a) (acc, m) = (Inr (), (acc @ [data_field (objects m a)], m))"
| "st_push PNull (acc, m) = (Inl TypeError, (acc, m))"
| "st_push PUndefined (acc, m) = (Inl TypeError, (acc, m))"

text \<open>
  A callback that records the reference it is called with, and a memory that holds the
  tree with the keys 2, 1, 3 at the addresses 0, 1, 2.
\<close>

fun record_pointer :: "(int, pointer list) st_fn" where
  "record_pointer q (log, m) = (Inr (), (log @ [q], m))"

definition example_objects :: "addr \<Rightarrow> int node_object" where
  "example_objects a =
     (if a = 0 then \<lparr>data_field = 2, left_field = PNode 1, right_field = PNode 2\<rparr>
      else if a = 1 then \<lparr>data_field = 1, left_field = PNull, right_field = PNull\<rparr>
      else \<lparr>data_field = 3, left_field = PNull, right_field = PNull\<rparr>)"

definition example_memory :: "int memory" where
  "example_memory = \<lparr>objects = example_objects, tree_root = PNode 0\<rparr>"

text \<open>A callback that assigns to the node it is called with: \<^verbatim>\<open>(node) => { node.data = 0; }\<close>\<close>

fun assign_key :: "(int, unit) st_fn" where
  "assign_key (PNode a) (u, m) =
     (Inr (), (u, m\<lparr>objects := (objects m)(a := (objects m a)\<lparr>data_field := 0\<rparr>)\<rparr>))"
| "assign_key PNull (u, m) = (Inl TypeError, (u, m))"
| "assign_key PUndefined (u, m) = (Inl TypeError, (u, m))"

section \<open>Pre-order and post-order traversal\<close>

lemma preOrderRec_omitted_node:
  "preOrderRec (NonFunction v) Undefined s = (Inl TypeError, s)"
  by simp

lemma postOrderRec_omitted_node:
  "postOrderRec callback Undefined s = (Inl TypeError, s)"
  by simp

lemma preOrder_nonempty:
  "preOrder (Function f) s \<lparr>root = Node d l r\<rparr> =
     ((case f (Ref (Node d l r)) s of
         (Inl e, s1) \<Rightarrow> (Inl e, s1)
       | (Inr u, s1) \<Rightarrow> (Inl TypeError, s1)), \<lparr>root = Node d l r\<rparr>)"
  by (simp add: preOrder_def split: prod.splits sum.splits)

lemma postOrder_nonempty:
  "postOrder (Function f) s \<lparr>root = Node d l r\<rparr> = ((Inl TypeError, s), \<lparr>root = Node d l r\<rparr>)"
  by (simp add: postOrder_def)

text \<open>
  Claim C1 says that \<^verbatim>\<open>preOrder(cb)\<close> on a non-empty tree calls the callback once for
  every node, in pre-order. On the tree built from \<^verbatim>\<open>[1, 2, 3]\<close>, whose nodes in
  pre-order carry the keys 2, 1, 3, the source calls the callback for the root only and
  then throws a \<^verbatim>\<open>TypeError\<close>: the first recursive call binds the left child to the
  parameter \<^verbatim>\<open>callback\<close> and calls it.
\<close>

theorem preOrder_stops_after_root:
  "new_Tree (map Coercible [1, 2, 3 :: int]) =
     Inr \<lparr>root = Node 2 (Node 1 Null Null) (Node 3 Null Null)\<rparr> \<and>
   preOrder (Function record_key) []
       \<lparr>root = Node (2::int) (Node 1 Null Null) (Node 3 Null Null)\<rparr> =
     ((Inl TypeError, [2]), \<lparr>root = Node 2 (Node 1 Null Null) (Node 3 Null Null)\<rparr>) \<and>
   map data (preorder_nodes (Node (2::int) (Node 1 Null Null) (Node 3 Null Null))) = [2, 1, 3]"
  by (simp add: new_Tree_def processArray_def buildTree.simps preOrder_def)

text \<open>
  Claim C2 says that \<^verbatim>\<open>postOrder(cb)\<close> on a non-empty tree calls the callback once for
  every node, in post-order. On the tree built from \<^verbatim>\<open>[1, 2, 3]\<close>, whose nodes in
  post-order carry the keys 1, 3, 2, the source throws a \<^verbatim>\<open>TypeError\<close> before any call
  of the callback: the first recursive call leaves \<^verbatim>\<open>node\<close> undefined and reads
  \<^verbatim>\<open>node.left\<close>.
\<close>

theorem postOrder_throws_at_once:
  "new_Tree (map Coercible [1, 2, 3 :: int]) =
     Inr \<lparr>root = Node 2 (Node 1 Null Null) (Node 3 Null Null)\<rparr> \<and>
   postOrder (Function record_key) []
       \<lparr>root = Node (2::int) (Node 1 Null Null) (Node 3 Null Null)\<rparr> =
     ((Inl TypeError, []), \<lparr>root = Node 2 (Node 1 Null Null) (Node 3 Null Null)\<rparr>) \<and>
   map data (postorder_nodes (Node (2::int) (Node 1 Null Null) (Node 3 Null Null))) = [1, 3, 2]"
  by (simp add: new_Tree_def processArray_def buildTree.simps postOrder_def)

section \<open>In-order traversal and the search-tree invariant\<close>

lemma inOrderRec_push:
  "inOrderRec (Function push) (Ref n) acc = (Inr (), acc @ inorder n)"
  by (induction n arbitrary: acc) simp_all

lemma inOrder_push:
  "inOrder (Function push) [] t = ((Inr (), inorder (root t)), t)"
  by (simp add: inOrder_def inOrderRec_push)

lemma bst_iff_sorted: "bst n = sorted_wrt (<) (inorder n)"
  by (induction n) (auto simp: sorted_wrt_append intro: less_trans)

lemma inorder_eq_Nil: "inorder n = [] \<longleftrightarrow> n = Null"
  by (cases n) simp_all

lemma set_inorder_insertRec:
  "set (inorder (insertRec v n)) = insert v (set (inorder n))"
  by (induction n) auto

lemma bst_insertRec: "bst n \<Longrightarrow> bst (insertRec v n)"
  by (induction n) (auto simp: set_inorder_insertRec)

lemma insertRec_present: "bst n \<Longrightarrow> v \<in> set (inorder n) \<Longrightarrow> insertRec v n = n"
  by (induction n) auto

lemma nextItem_while_leftmost:
  "n \<noteq> Null \<Longrightarrow> \<exists>mr. nextItem_while n = Node (hd (inorder n)) Null mr"
  by (induction n) (auto simp: inorder_eq_Nil)

lemma nextItem_while_min:
  "bst n \<Longrightarrow> nextItem_while n = Node m ml mr \<Longrightarrow>
     m \<in> set (inorder n) \<and> (\<forall>y \<in> set (inorder n). m \<le> y)"
  by (induction n) (fastforce split: if_splits)+

lemma deleteItemRec_returns: "\<exists>n'. deleteItemRec v n = Inr n'"
proof (induction n arbitrary: v)
  case Null
  show ?case by simp
next
  case (Node d l r)
  show ?case
  proof (cases "l \<noteq> Null \<and> r \<noteq> Null \<and> d = v")
    case True
    then obtain mr where "nextItem_while r = Node (hd (inorder r)) Null mr"
      using nextItem_while_leftmost by blast
    moreover obtain r' where "deleteItemRec (hd (inorder r)) r = Inr r'"
      using Node.IH(2) by blast
    ultimately show ?thesis using True by simp
  next
    case False
    obtain l' r' where "deleteItemRec v l = Inr l'" "deleteItemRec v r = Inr r'"
      using Node.IH by blast
    with False show ?thesis by auto
  qed
qed

lemma deleteItemRec_absent:
  "v \<notin> set (inorder n) \<Longrightarrow> deleteItemRec v n = Inr n"
  by (induction n) auto

lemma deleteItemRec_two_children:
  assumes "l \<noteq> Null" and "r \<noteq> Null"
  shows "\<exists>r'. deleteItemRec (hd (inorder r)) r = Inr r' \<and>
           deleteItemRec d (Node d l r) = Inr (Node (hd (inorder r)) l r')"
proof -
  obtain mr where "nextItem_while r = Node (hd (inorder r)) Null mr"
    using nextItem_while_leftmost [OF assms(2)] by blast
  moreover obtain r' where "deleteItemRec (hd (inorder r)) r = Inr r'"
    using deleteItemRec_returns by blast
  ultimately show ?thesis using assms by simp
qed

lemma deleteItemRec_bst:
  "bst n \<Longrightarrow> deleteItemRec v n = Inr n' \<Longrightarrow>
     set (inorder n') = set (inorder n) - {v} \<and> bst n'"
proof (induction n arbitrary: v n')
  case Null
  then show ?case by auto
next
  case (Node d l r)
  from Node.prems(1) have bl: "bst l" and br: "bst r"
    and ll: "\<forall>x \<in> set (inorder l). x < d" and rr: "\<forall>x \<in> set (inorder r). d < x"
    by simp_all
  consider (right) "d < v" | (left) "v < d" | (leaf_l) "d = v" "l = Null"
    | (leaf_r) "d = v" "l \<noteq> Null" "r = Null" | (both) "d = v" "l \<noteq> Null" "r \<noteq> Null"
    by (meson linorder_neqE)
  then show ?case
  proof cases
    case right
    then obtain r' where r': "deleteItemRec v r = Inr r'" and n': "n' = Node d l r'"
      using Node.prems(2) by (auto split: sum.splits)
    from Node.IH(2) [OF br r'] have "set (inorder r') = set (inorder r) - {v}" "bst r'"
      by simp_all
    with right n' bl ll rr show ?thesis by auto
  next
    case left
    then have "\<not> d < v" by simp
    with left obtain l' where l': "deleteItemRec v l = Inr l'" and n': "n' = Node d l' r"
      using Node.prems(2) by (auto split: sum.splits)
    from Node.IH(1) [OF bl l'] have "set (inorder l') = set (inorder l) - {v}" "bst l'"
      by simp_all
    with left n' br ll rr show ?thesis by auto
  next
    case leaf_l
    with Node.prems(2) have "n' = r" by simp
    with leaf_l br rr show ?thesis by auto
  next
    case leaf_r
    with Node.prems(2) have "n' = l" by simp
    with leaf_r bl ll show ?thesis by auto
  next
    case both
    from deleteItemRec_two_children [OF both(2,3), of d] Node.prems(2) both(1)
    obtain r' where r': "deleteItemRec (hd (inorder r)) r = Inr r'"
      and n': "n' = Node (hd (inorder r)) l r'"
      by auto
    obtain mr where "nextItem_while r = Node (hd (inorder r)) Null mr"
      using nextItem_while_leftmost [OF both(3)] by blast
    from nextItem_while_min [OF br this]
    have m_in: "hd (inorder r) \<in> set (inorder r)"
      and m_le: "\<forall>y \<in> set (inorder r). hd (inorder r) \<le> y"
      by simp_all
    from Node.IH(2) [OF br r']
    have sr: "set (inorder r') = set (inorder r) - {hd (inorder r)}" and br': "bst r'"
      by simp_all
    have "\<forall>x \<in> set (inorder l). x < hd (inorder r)"
      using ll rr m_in by (meson less_trans)
    moreover have "\<forall>y \<in> set (inorder r'). hd (inorder r) < y"
      using sr m_le by (auto simp: less_le)
    moreover have "set (inorder n') = set (inorder (Node d l r)) - {v}"
      using n' sr m_in ll rr both(1) by auto
    ultimately show ?thesis using n' bl br' by simp
  qed
qed

section \<open>Balanced construction\<close>

lemma processArray_map_Coercible: "processArray_map (map Coercible xs) = Inr xs"
  by (induction xs) simp_all

lemma set_new_Set: "set (new_Set seen nums) = set seen \<union> set nums"
  by (induction seen nums rule: new_Set.induct) auto

lemma distinct_new_Set: "distinct seen \<Longrightarrow> distinct (new_Set seen nums)"
  by (induction seen nums rule: new_Set.induct) auto

lemma sort_new_Set: "sort (new_Set [] nums) = sorted_list_of_set (set nums)"
  by (rule sorted_distinct_set_unique)
    (simp_all add: set_new_Set distinct_new_Set)

lemma processArray_Coercible:
  "processArray (map Coercible xs) = Inr (sorted_list_of_set (set xs))"
  by (simp add: processArray_def processArray_map_Coercible sort_new_Set)

lemma new_Tree_Coercible:
  "new_Tree (map Coercible xs) = Inr \<lparr>root = buildTree (sorted_list_of_set (set xs))\<rparr>"
  by (simp add: new_Tree_def processArray_Coercible)

lemma buildTree_Nil: "buildTree [] = Null"
  by (simp add: buildTree.simps)

lemma buildTree_nonempty:
  "xs \<noteq> [] \<Longrightarrow>
     buildTree xs =
       Node (xs ! (length xs div 2)) (buildTree (take (length xs div 2) xs))
         (buildTree (drop (length xs div 2 + 1) xs))"
  by (subst buildTree.simps) (simp add: Let_def)

lemma inorder_buildTree: "inorder (buildTree xs) = xs"
proof (induction xs rule: buildTree.induct)
  case (1 xs)
  show ?case
  proof (cases "xs = []")
    case True
    then show ?thesis by (simp add: buildTree_Nil)
  next
    case False
    then have mid: "length xs div 2 < length xs" by simp
    from False 1 have "inorder (buildTree (take (length xs div 2) xs)) = take (length xs div 2) xs"
      and "inorder (buildTree (drop (length xs div 2 + 1) xs)) = drop (length xs div 2 + 1) xs"
      by simp_all
    with False id_take_nth_drop [OF mid] show ?thesis
      by (simp add: buildTree_nonempty)
  qed
qed

lemma count_nodes_length: "count_nodes n = length (inorder n)"
  by (induction n) simp_all

lemma size_balanced_buildTree: "size_balanced (buildTree xs)"
proof (induction xs rule: buildTree.induct)
  case (1 xs)
  show ?case
  proof (cases "xs = []")
    case True
    then show ?thesis by (simp add: buildTree_Nil)
  next
    case False
    with 1 have "size_balanced (buildTree (take (length xs div 2) xs))"
      and "size_balanced (buildTree (drop (length xs div 2 + 1) xs))"
      by simp_all
    with False show ?thesis
      by (simp add: buildTree_nonempty count_nodes_length inorder_buildTree)
  qed
qed

lemma build_height_0: "build_height 0 = 0"
  by (simp add: build_height.simps)

lemma build_height_pos: "0 < n \<Longrightarrow> build_height n = build_height (n div 2) + 1"
  by (subst build_height.simps) simp

lemma build_height_Suc: "build_height (Suc n) \<le> build_height n + 1"
proof (induction n rule: less_induct)
  case (less n)
  show ?case
  proof (cases "n = 0")
    case True
    then show ?thesis by (simp add: build_height_pos build_height_0)
  next
    case False
    show ?thesis
    proof (cases "even n")
      case True
      then have "Suc n div 2 = n div 2" by simp
      with False show ?thesis by (simp add: build_height_pos)
    next
      case False
      then have "Suc n div 2 = Suc (n div 2)" by simp
      moreover have "build_height (Suc (n div 2)) \<le> build_height (n div 2) + 1"
        using \<open>n \<noteq> 0\<close> by (intro less.IH) simp
      ultimately show ?thesis using \<open>n \<noteq> 0\<close> by (simp add: build_height_pos)
    qed
  qed
qed

lemma build_height_mono_Suc: "build_height n \<le> build_height (Suc n)"
proof (induction n rule: less_induct)
  case (less n)
  show ?case
  proof (cases "n = 0")
    case True
    then show ?thesis by (simp add: build_height_0)
  next
    case False
    show ?thesis
    proof (cases "even n")
      case True
      then have "Suc n div 2 = n div 2" by simp
      with False show ?thesis by (simp add: build_height_pos)
    next
      case False
      then have "Suc n div 2 = Suc (n div 2)" by simp
      moreover have "build_height (n div 2) \<le> build_height (Suc (n div 2))"
        using \<open>n \<noteq> 0\<close> by (intro less.IH) simp
      ultimately show ?thesis using \<open>n \<noteq> 0\<close> by (simp add: build_height_pos)
    qed
  qed
qed

lemma height_buildTree_balanced:
  "height (buildTree xs) = build_height (length xs) \<and> isBalancedRec (buildTree xs)"
proof (induction xs rule: buildTree.induct)
  case (1 xs)
  show ?case
  proof (cases "xs = []")
    case True
    then show ?thesis by (simp add: buildTree_Nil build_height_0)
  next
    case False
    let ?m = "length xs div 2"
    from False 1
    have l: "height (buildTree (take ?m xs)) = build_height (length (take ?m xs))"
        "isBalancedRec (buildTree (take ?m xs))"
      and r: "height (buildTree (drop (?m + 1) xs)) = build_height (length (drop (?m + 1) xs))"
        "isBalancedRec (buildTree (drop (?m + 1) xs))"
      by simp_all
    have lt: "length (take ?m xs) = ?m" by simp
    have "length (drop (?m + 1) xs) = ?m \<or> Suc (length (drop (?m + 1) xs)) = ?m"
      using False by (simp add: length_greater_0_conv [symmetric] del: length_greater_0_conv) linarith
    then have hr: "build_height (length (drop (?m + 1) xs)) \<le> build_height ?m"
      and hl: "build_height ?m \<le> build_height (length (drop (?m + 1) xs)) + 1"
      using build_height_mono_Suc [of "length (drop (?m + 1) xs)"]
        build_height_Suc [of "length (drop (?m + 1) xs)"]
      by auto
    have "build_height (length xs) = build_height ?m + 1"
      using False by (simp add: build_height_pos)
    with l r lt hr hl False show ?thesis
      by (simp add: buildTree_nonempty Let_def max_def)
  qed
qed

lemma bst_buildTree_sorted: "bst (buildTree (sorted_list_of_set A))"
  by (simp add: bst_iff_sorted inorder_buildTree)

text \<open>
  Claim C4: for every array of values that all convert to numbers, the in-order
  traversal of the constructed tree collects exactly the sorted list of the distinct
  conversions; the array \<^verbatim>\<open>[3, 6, 6, 1, 8, 1]\<close> gives \<^verbatim>\<open>[1, 3, 6, 8]\<close>. The
  traversal is run with the collecting callback of \<^verbatim>\<open>rebalance\<close>.
\<close>

theorem construction_round_trip:
  "(\<exists>t. new_Tree (map Coercible xs) = Inr t \<and>
         inOrder (Function push) [] t = ((Inr (), sorted_list_of_set (set xs)), t)) \<and>
   (\<exists>t. new_Tree (map Coercible [3, 6, 6, 1, 8, 1 :: int]) = Inr t \<and>
         inOrder (Function push) [] t = ((Inr (), [1, 3, 6, 8]), t))"
proof -
  have general: "\<exists>t. new_Tree (map Coercible ys) = Inr t \<and>
      inOrder (Function push) [] t = ((Inr (), sorted_list_of_set (set ys)), t)"
    for ys :: "'b::linorder list"
    by (simp add: new_Tree_Coercible inOrder_push inorder_buildTree)
  have "sorted_list_of_set (set [3, 6, 6, 1, 8, 1 :: int]) = [1, 3, 6, 8]"
    by (subst sorted_list_of_set_sort_remdups) simp
  with general [of "[3, 6, 6, 1, 8, 1 :: int]"] general [of xs] show ?thesis
    by simp
qed

section \<open>Sequences of insertions and deletions\<close>

lemma isNaN_False: "isNaN v = Inr False \<longleftrightarrow> (\<exists>x. v = Coercible x)"
  by (cases v) (simp_all add: isNaN_def)

lemma perform_keeps_bst:
  assumes "bst (root t)" and "isNaN (argument c) = Inr False"
  shows "\<exists>t'. perform c t = (Inr (), t') \<and> bst (root t')"
proof (cases c)
  case (Insert v)
  with assms(2) obtain x where "v = Coercible x" by (auto simp: isNaN_False)
  with Insert assms(1) show ?thesis
    by (simp add: insert_value_def bst_insertRec)
next
  case (DeleteItem v)
  with assms(2) obtain x where v: "v = Coercible x" by (auto simp: isNaN_False)
  obtain n' where n': "deleteItemRec x (root t) = Inr n'"
    using deleteItemRec_returns by blast
  with deleteItemRec_bst [OF assms(1) n'] DeleteItem v show ?thesis
    by (simp add: deleteItem_def)
qed

lemma perform_all_keeps_bst:
  "bst (root t) \<Longrightarrow> \<forall>c \<in> set calls. isNaN (argument c) = Inr False \<Longrightarrow>
     \<exists>t'. perform_all calls t = (Inr (), t') \<and> bst (root t')"
proof (induction calls arbitrary: t)
  case Nil
  then show ?case by simp
next
  case (Cons c calls)
  from Cons.prems obtain t1 where t1: "perform c t = (Inr (), t1)" "bst (root t1)"
    using perform_keeps_bst [of t c] by auto
  from Cons.IH [OF t1(2)] Cons.prems(2) obtain t' where
    "perform_all calls t1 = (Inr (), t')" "bst (root t')"
    by auto
  with t1 show ?case by simp
qed

text \<open>
  Claim C3: a tree is constructed from an array of values that convert to numbers, and
  any finite sequence of \<^verbatim>\<open>insert\<close> and \<^verbatim>\<open>deleteItem\<close> calls with arguments that
  convert to numbers (\<^verbatim>\<open>isNaN\<close> returns false) follows. Then every call returns normally, and the in-order traversal
  of the resulting tree yields a strictly ascending sequence of keys; the keys are
  therefore distinct and the search-tree ordering holds at every node.
\<close>

theorem bst_invariant_maintained:
  assumes "\<forall>c \<in> set calls. isNaN (argument c) = Inr False"
  shows "\<exists>t t' ks. new_Tree (map Coercible xs) = Inr t \<and>
           perform_all calls t = (Inr (), t') \<and>
           inOrder (Function push) [] t' = ((Inr (), ks), t') \<and>
           sorted_wrt (<) ks \<and> distinct ks \<and> bst (root t')"
proof -
  let ?t = "\<lparr>root = buildTree (sorted_list_of_set (set xs))\<rparr>"
  have "bst (root ?t)" by (simp add: bst_buildTree_sorted)
  from perform_all_keeps_bst [OF this assms] obtain t' where
    t': "perform_all calls ?t = (Inr (), t')" "bst (root t')"
    by blast
  from t'(2) have "sorted_wrt (<) (inorder (root t'))" "distinct (inorder (root t'))"
    by (simp_all add: bst_iff_sorted strict_sorted_iff)
  with t' show ?thesis
    using new_Tree_Coercible [of xs] inOrder_push [of t'] by blast
qed

theorem bst_invariant_maintained_witness:
  "list_all (\<lambda>c. isNaN (argument c) = Inr False)
     [Insert (Coercible (5::int)), DeleteItem (Coercible 3)] \<and>
   (\<exists>t t' ks. new_Tree (map Coercible [3, 6, 6, 1, 8, 1]) = Inr t \<and>
           perform_all [Insert (Coercible (5::int)), DeleteItem (Coercible 3)] t = (Inr (), t') \<and>
           inOrder (Function push) [] t' = ((Inr (), ks), t') \<and>
           sorted_wrt (<) ks \<and> distinct ks \<and> bst (root t'))"
  using bst_invariant_maintained
    [of "[Insert (Coercible (5::int)), DeleteItem (Coercible 3)]" "[3, 6, 6, 1, 8, 1]"]
  by (simp add: isNaN_def)

section \<open>Deletion\<close>

lemma deleteItemRec_inorder:
  assumes "bst n" and "deleteItemRec v n = Inr n'"
  shows "inorder n' = filter (\<lambda>x. x \<noteq> v) (inorder n)"
proof (rule sorted_distinct_set_unique)
  from deleteItemRec_bst [OF assms] have "sorted_wrt (<) (inorder n')"
    by (simp add: bst_iff_sorted)
  then show "sorted (inorder n')" "distinct (inorder n')"
    by (simp_all add: strict_sorted_iff)
  from assms(1) have "sorted (inorder n)" "distinct (inorder n)"
    by (simp_all add: bst_iff_sorted strict_sorted_iff)
  then show "sorted (filter (\<lambda>x. x \<noteq> v) (inorder n))"
    "distinct (filter (\<lambda>x. x \<noteq> v) (inorder n))"
    by (simp_all add: sorted_wrt_filter)
  from deleteItemRec_bst [OF assms]
  show "set (inorder n') = set (filter (\<lambda>x. x \<noteq> v) (inorder n))"
    by auto
qed

text \<open>
  Claim C5, for a tree that satisfies the invariant of the data model and a number \<open>v\<close>.
  If \<open>v\<close> is a key, \<^verbatim>\<open>deleteItem(v)\<close> returns normally, the set of keys loses exactly
  \<open>v\<close>, and the invariant still holds: the in-order traversal yields the old sequence
  without \<open>v\<close>, strictly ascending. If \<open>v\<close> is not a key, the tree is unchanged. At a
  node with two children that carries the key to delete, \<^verbatim>\<open>#nextItem\<close> returns the
  leftmost node of the right subtree (it has no left child and carries the first key of
  the right subtree in order), the node's key is overwritten with that key, and that key
  is deleted from the right subtree.
\<close>

theorem deleteItem_correct:
  assumes "bst (root (t :: 'a::linorder tree))"
  shows "(v \<in> set (inorder (root t)) \<longrightarrow>
            (\<exists>t'. deleteItem (Coercible v) t = (Inr (), t') \<and>
                 set (inorder (root t')) = set (inorder (root t)) - {v} \<and>
                 bst (root t') \<and>
                 inOrder (Function push) [] t' =
                   ((Inr (), filter (\<lambda>x. x \<noteq> v) (inorder (root t))), t') \<and>
                 sorted_wrt (<) (filter (\<lambda>x. x \<noteq> v) (inorder (root t))))) \<and>
         (v \<notin> set (inorder (root t)) \<longrightarrow> deleteItem (Coercible v) t = (Inr (), t)) \<and>
         (\<forall>(d::'a) l r. l \<noteq> Null \<and> r \<noteq> Null \<longrightarrow>
            (\<exists>mr r'. nextItem (Node d l r) = Inr (Node (hd (inorder r)) Null mr) \<and>
                 deleteItemRec (hd (inorder r)) r = Inr r' \<and>
                 deleteItemRec d (Node d l r) = Inr (Node (hd (inorder r)) l r')))"
proof -
  obtain n' where n': "deleteItemRec v (root t) = Inr n'"
    using deleteItemRec_returns by blast
  let ?t' = "t\<lparr>root := n'\<rparr>"
  have del: "deleteItem (Coercible v) t = (Inr (), ?t')"
    using n' by (simp add: deleteItem_def)
  have "inorder n' = filter (\<lambda>x. x \<noteq> v) (inorder (root t))"
    by (rule deleteItemRec_inorder [OF assms n'])
  moreover have "sorted_wrt (<) (inorder n')"
    using deleteItemRec_bst [OF assms n'] by (simp add: bst_iff_sorted)
  ultimately
  have present: "\<exists>t'. deleteItem (Coercible v) t = (Inr (), t') \<and>
      set (inorder (root t')) = set (inorder (root t)) - {v} \<and> bst (root t') \<and>
      inOrder (Function push) [] t' = ((Inr (), filter (\<lambda>x. x \<noteq> v) (inorder (root t))), t') \<and>
      sorted_wrt (<) (filter (\<lambda>x. x \<noteq> v) (inorder (root t)))"
    using del deleteItemRec_bst [OF assms n'] inOrder_push [of ?t']
    by (intro exI [of _ ?t']) simp
  have absent: "deleteItem (Coercible v) t = (Inr (), t)" if "v \<notin> set (inorder (root t))"
    using that by (simp add: deleteItem_def deleteItemRec_absent)
  have both: "\<exists>mr r'. nextItem (Node d l r) = Inr (Node (hd (inorder r)) Null mr) \<and>
      deleteItemRec (hd (inorder r)) r = Inr r' \<and>
      deleteItemRec d (Node d l r) = Inr (Node (hd (inorder r)) l r')"
    if lr: "l \<noteq> Null \<and> r \<noteq> Null" for d :: 'a and l r
  proof -
    from lr obtain mr where "nextItem_while r = Node (hd (inorder r)) Null mr"
      using nextItem_while_leftmost by blast
    with deleteItemRec_two_children [of l r d] lr show ?thesis
      by auto
  qed
  show ?thesis
    apply (intro conjI impI allI)
    apply (rule present)
    apply (erule absent)
    apply (erule both)
    done
qed

theorem deleteItem_correct_witness:
  "bst (root \<lparr>root = Node (6::int) (Node 3 (Node 1 Null Null) (Node 4 Null Null)) (Node 8 Null Null)\<rparr>) \<and>
   (3::int) \<in> set (inorder (root
       \<lparr>root = Node 6 (Node 3 (Node 1 Null Null) (Node 4 Null Null)) (Node 8 Null Null)\<rparr>)) \<and>
   Node (1::int) Null Null \<noteq> Null \<and> Node (4::int) Null Null \<noteq> Null \<and>
   nextItem (Node (3::int) (Node 1 Null Null) (Node 4 Null Null)) = Inr (Node 4 Null Null) \<and>
   deleteItem (Coercible 3)
       \<lparr>root = Node (6::int) (Node 3 (Node 1 Null Null) (Node 4 Null Null)) (Node 8 Null Null)\<rparr> =
     (Inr (), \<lparr>root = Node 6 (Node 4 (Node 1 Null Null) Null) (Node 8 Null Null)\<rparr>) \<and>
   inOrder (Function push) [] \<lparr>root = Node (6::int) (Node 4 (Node 1 Null Null) Null) (Node 8 Null Null)\<rparr> =
     ((Inr (), [1, 4, 6, 8]), \<lparr>root = Node 6 (Node 4 (Node 1 Null Null) Null) (Node 8 Null Null)\<rparr>)"
  using deleteItem_correct
    [of "\<lparr>root = Node (6::int) (Node 3 (Node 1 Null Null) (Node 4 Null Null)) (Node 8 Null Null)\<rparr>" 3]
  by (simp add: deleteItem_def)

section \<open>Balance\<close>

text \<open>
  Claim C6: for every array of values that convert to numbers, and so for
  \<^verbatim>\<open>[1..n]\<close> with any \<open>n\<close>, the constructed tree answers \<^verbatim>\<open>isBalanced()\<close> with true.
  The construction returns \<^verbatim>\<open>null\<close> for the empty array and otherwise puts the element
  at index \<open>length div 2\<close> at the root, with the elements before it on the left and those
  after it on the right; at every node of the result the two subtrees differ by at most
  one node.
\<close>

theorem balanced_construction:
  "(\<exists>t. new_Tree (map Coercible xs) = Inr t \<and> isBalanced t = (Inr True, t) \<and>
         size_balanced (root t)) \<and>
   (\<exists>t. new_Tree (map Coercible [1..n]) = Inr t \<and> isBalanced t = (Inr True, t)) \<and>
   buildTree [] = Null \<and>
   (ys \<noteq> [] \<longrightarrow>
      buildTree ys =
        Node (ys ! (length ys div 2)) (buildTree (take (length ys div 2) ys))
          (buildTree (drop (length ys div 2 + 1) ys))) \<and>
   size_balanced (buildTree ys) \<and> isBalancedRec (buildTree ys)"
  by (simp add: new_Tree_Coercible isBalanced_def height_buildTree_balanced
      size_balanced_buildTree buildTree_Nil buildTree_nonempty)

theorem balanced_construction_witness:
  "[3, 1, 2 :: int] \<noteq> [] \<and>
   buildTree [3, 1, 2 :: int] = Node 1 (Node 3 Null Null) (Node 2 Null Null) \<and>
   new_Tree (map Coercible [1..4]) =
     Inr \<lparr>root = Node 3 (Node 2 (Node 1 Null Null) Null) (Node 4 Null Null)\<rparr> \<and>
   isBalanced \<lparr>root = Node (3::int) (Node 2 (Node 1 Null Null) Null) (Node 4 Null Null)\<rparr> =
     (Inr True, \<lparr>root = Node 3 (Node 2 (Node 1 Null Null) Null) (Node 4 Null Null)\<rparr>)"
  using balanced_construction [of "[1, 2, 3, 4 :: int]" 4 "[3, 1, 2 :: int]"]
  by (simp add: buildTree.simps upto.simps isBalanced_def new_Tree_def processArray_def)

text \<open>
  Claim C7: \<^verbatim>\<open>rebalance()\<close> returns normally on every tree; the in-order traversal
  yields the same key sequence before and after, and \<^verbatim>\<open>isBalanced()\<close> is true
  afterwards. On a tree that is balanced already nothing changes.
\<close>

theorem rebalance_correct:
  "\<exists>t' ks. rebalance t = (Inr (), t') \<and>
      inOrder (Function push) [] t = ((Inr (), ks), t) \<and>
      inOrder (Function push) [] t' = ((Inr (), ks), t') \<and>
      isBalanced t' = (Inr True, t') \<and>
      (isBalanced t = (Inr True, t) \<longrightarrow> t' = t)"
proof (cases "isBalancedRec (root t)")
  case True
  then show ?thesis
    by (simp add: rebalance_def isBalanced_def inOrder_push)
next
  case False
  then show ?thesis
    by (simp add: rebalance_def isBalanced_def inOrder_push inorder_buildTree
        height_buildTree_balanced)
qed

theorem rebalance_correct_witness:
  "isBalanced \<lparr>root = Node (2::int) (Node 1 Null Null) (Node 3 Null Null)\<rparr> =
     (Inr True, \<lparr>root = Node 2 (Node 1 Null Null) (Node 3 Null Null)\<rparr>) \<and>
   rebalance \<lparr>root = Node (2::int) (Node 1 Null Null) (Node 3 Null Null)\<rparr> =
     (Inr (), \<lparr>root = Node 2 (Node 1 Null Null) (Node 3 Null Null)\<rparr>) \<and>
   rebalance \<lparr>root = Node (1::int) Null (Node 2 Null (Node 3 Null Null))\<rparr> =
     (Inr (), \<lparr>root = Node 2 (Node 1 Null Null) (Node 3 Null Null)\<rparr>)"
  using rebalance_correct [of "\<lparr>root = Node (2::int) (Node 1 Null Null) (Node 3 Null Null)\<rparr>"]
  by (simp add: isBalanced_def rebalance_def inOrder_def buildTree.simps)

section \<open>Insertion of a present key\<close>

text \<open>
  Claim C8: when the number \<open>v\<close> is already a key of the tree, \<^verbatim>\<open>insert(v)\<close> returns
  normally and leaves the set of keys unchanged; on a tree that satisfies the invariant of
  the data model it leaves the whole tree unchanged.
\<close>

theorem insert_present_key:
  assumes "v \<in> set (inorder (root t))"
  shows "\<exists>t'. insert_value (Coercible v) t = (Inr (), t') \<and>
           set (inorder (root t')) = set (inorder (root t)) \<and>
           (bst (root t) \<longrightarrow> t' = t)"
  using assms
  by (auto simp: insert_value_def set_inorder_insertRec insertRec_present)

theorem insert_present_key_witness:
  "(6::int) \<in> set (inorder (root \<lparr>root = Node 6 (Node 3 Null Null) (Node 8 Null Null)\<rparr>)) \<and>
   bst (root \<lparr>root = Node (6::int) (Node 3 Null Null) (Node 8 Null Null)\<rparr>) \<and>
   insert_value (Coercible 6) \<lparr>root = Node (6::int) (Node 3 Null Null) (Node 8 Null Null)\<rparr> =
     (Inr (), \<lparr>root = Node 6 (Node 3 Null Null) (Node 8 Null Null)\<rparr>)"
  using insert_present_key [of 6 "\<lparr>root = Node (6::int) (Node 3 Null Null) (Node 8 Null Null)\<rparr>"]
  by (simp add: insert_value_def)

section \<open>Conversion errors\<close>









section \<open>Queries\<close>

lemma height_le_count_nodes: "height t \<le> count_nodes t"
  by (induction t) auto

lemma st_findRec_represents:
  "represents (objects m) p t \<Longrightarrow> height t < depth \<Longrightarrow>
     \<exists>r. st_findRec depth v p m = Some (Inr r, m) \<and> represents (objects m) r (findRec v t)"
proof (induction t arbitrary: depth p)
  case Null
  then obtain k where "depth = Suc k" by (cases depth) simp_all
  with Null show ?case by simp
next
  case (Node d l r)
  from Node.prems(2) obtain k where k: "depth = Suc k" by (cases depth) simp_all
  from Node.prems(1) obtain a where a: "p = PNode a" "data_field (objects m a) = d"
    "represents (objects m) (left_field (objects m a)) l"
    "represents (objects m) (right_field (objects m a)) r"
    by (cases p) simp_all
  from Node.prems(2) k have hl: "height l < k" and hr: "height r < k" by simp_all
  show ?case
    using Node.IH(1) [OF a(3) hl] Node.IH(2) [OF a(4) hr] a k Node.prems(1)
    by auto
qed

lemma st_height_represents:
  "represents (objects m) p t \<Longrightarrow> height t < depth \<Longrightarrow>
     st_height depth p m = Some (Inr (height t), m)"
proof (induction t arbitrary: depth p)
  case Null
  then obtain k where "depth = Suc k" by (cases depth) simp_all
  with Null show ?case by simp
next
  case (Node d l r)
  from Node.prems(2) obtain k where k: "depth = Suc k" by (cases depth) simp_all
  from Node.prems(1) obtain a where a: "p = PNode a"
    "represents (objects m) (left_field (objects m a)) l"
    "represents (objects m) (right_field (objects m a)) r"
    by (cases p) simp_all
  from Node.prems(2) k have hl: "height l < k" and hr: "height r < k" by simp_all
  show ?case
    using Node.IH(1) [OF a(2) hl] Node.IH(2) [OF a(3) hr] a k
    by simp
qed

lemma st_isBalancedRec_represents:
  "represents (objects m) p t \<Longrightarrow> height t < depth \<Longrightarrow>
     st_isBalancedRec depth p m = Some (Inr (isBalancedRec t), m)"
proof (induction t arbitrary: depth p)
  case Null
  then obtain k where "depth = Suc k" by (cases depth) simp_all
  with Null show ?case by simp
next
  case (Node d l r)
  from Node.prems(2) obtain k where k: "depth = Suc k" by (cases depth) simp_all
  from Node.prems(1) obtain a where a: "p = PNode a"
    "represents (objects m) (left_field (objects m a)) l"
    "represents (objects m) (right_field (objects m a)) r"
    by (cases p) simp_all
  from Node.prems(2) k have hl: "height l < k" and hr: "height r < k" by simp_all
  show ?case
    using Node.IH(1) [OF a(2) hl] Node.IH(2) [OF a(3) hr]
      st_height_represents [OF a(2) hl] st_height_represents [OF a(3) hr] a k
    by (cases "isBalancedRec l") (simp_all add: Let_def)
qed

lemma st_inOrderRec_frame:
  assumes frame: "\<And>q st'. snd (snd (f q st')) = snd st'"
  shows "represents (objects (snd st)) p t \<Longrightarrow> height t < depth \<Longrightarrow>
     \<exists>out s'. st_inOrderRec depth (St_Function f) p st = Some (out, (s', snd st))"
proof (induction t arbitrary: depth p st)
  case Null
  then obtain k where "depth = Suc k" by (cases depth) simp_all
  with Null show ?case by (cases st) simp
next
  case (Node d l r)
  from Node.prems(2) obtain k where k: "depth = Suc k" by (cases depth) simp_all
  from Node.prems(1) obtain a where a: "p = PNode a"
    "represents (objects (snd st)) (left_field (objects (snd st) a)) l"
    "represents (objects (snd st)) (right_field (objects (snd st) a)) r"
    by (cases p) simp_all
  from Node.prems(2) k have hl: "height l < k" and hr: "height r < k" by simp_all
  from Node.IH(1) [OF a(2) hl] obtain out1 s1 where
    left: "st_inOrderRec k (St_Function f) (left_field (objects (snd st) a)) st =
      Some (out1, (s1, snd st))"
    by blast
  show ?case
  proof (cases out1)
    case (Inl e)
    with left a k show ?thesis by simp
  next
    case (Inr u)
    obtain out2 s2 where cb: "f (PNode a) (s1, snd st) = (out2, (s2, snd st))"
      using frame [of "PNode a" "(s1, snd st)"]
      by (cases "f (PNode a) (s1, snd st)") auto
    show ?thesis
    proof (cases out2)
      case (Inl e)
      with left Inr cb a k show ?thesis by simp
    next
      case (Inr u2)
      from a(3) have "represents (objects (snd (s2, snd st)))
          (right_field (objects (snd (s2, snd st)) a)) r"
        by simp
      from Node.IH(2) [OF this hr] obtain out3 s3 where
        "st_inOrderRec k (St_Function f) (right_field (objects (snd st) a)) (s2, snd st) =
           Some (out3, (s3, snd st))"
        by auto
      with left \<open>out1 = Inr u\<close> cb Inr a k show ?thesis by simp
    qed
  qed
qed

lemma st_levelOrder_for_frame:
  assumes frame: "\<And>q st'. snd (snd (f q st')) = snd st'"
  shows "\<exists>out s'. st_levelOrder_for (St_Function f) k queue st = (out, (s', snd st))"
proof (induction k arbitrary: queue st)
  case 0
  show ?case by (cases st) simp
next
  case (Suc k)
  let ?node = "case queue of [] \<Rightarrow> PUndefined | p # ps \<Rightarrow> p"
  obtain out1 s1 where cb: "f ?node st = (out1, (s1, snd st))"
    using frame [of ?node st] by (cases "f ?node st") auto
  show ?case
  proof (cases out1)
    case (Inl e)
    with cb show ?thesis by (simp add: Let_def)
  next
    case (Inr u)
    show ?thesis
    proof (cases ?node)
      case (PNode a)
      with cb Inr Suc.IH [where st = "(s1, snd st)"] show ?thesis
        by (simp add: Let_def)
    qed (use cb Inr in \<open>simp_all add: Let_def\<close>)
  qed
qed

lemma st_levelOrder_for_queue:
  assumes frame: "\<And>q st'. snd (snd (f q st')) = snd st'"
  shows "list_all2 (represents (objects (snd st))) queue ns \<Longrightarrow>
     st_levelOrder_for (St_Function f) k queue st = (Inr queue', st') \<Longrightarrow>
     \<exists>ns'. list_all2 (represents (objects (snd st))) queue' ns' \<and>
        sum_list (map count_nodes ns') + k = sum_list (map count_nodes ns)"
proof (induction k arbitrary: queue ns st)
  case 0
  then show ?case by auto
next
  case (Suc k)
  let ?node = "case queue of [] \<Rightarrow> PUndefined | p # ps \<Rightarrow> p"
  obtain out1 s1 where cb: "f ?node st = (out1, (s1, snd st))"
    using frame [of ?node st] by (cases "f ?node st") auto
  from Suc.prems(2) cb obtain u where out1: "out1 = Inr u"
    by (cases out1) (simp_all add: Let_def)
  from Suc.prems(2) cb out1 obtain a where node: "?node = PNode a"
    by (cases ?node) (simp_all add: Let_def)
  then obtain ps where queue: "queue = PNode a # ps"
    by (cases queue) simp_all
  with Suc.prems(1) obtain n ns1 where ns: "ns = n # ns1"
    "represents (objects (snd st)) (PNode a) n"
    "list_all2 (represents (objects (snd st))) ps ns1"
    by (cases ns) simp_all
  from ns(2) obtain d l r where n: "n = Node d l r"
    "represents (objects (snd st)) (left_field (objects (snd st) a)) l"
    "represents (objects (snd st)) (right_field (objects (snd st) a)) r"
    by (cases n) simp_all
  let ?h = "objects (snd st)"
  let ?q2 = "if left_field (?h a) \<noteq> PNull then ps @ [left_field (?h a)] else ps"
  let ?q3 = "if right_field (?h a) \<noteq> PNull then ?q2 @ [right_field (?h a)] else ?q2"
  let ?ns2 = "if left_field (?h a) \<noteq> PNull then ns1 @ [l] else ns1"
  let ?ns3 = "if right_field (?h a) \<noteq> PNull then ?ns2 @ [r] else ?ns2"
  have lnull: "left_field (?h a) = PNull \<longleftrightarrow> l = Null"
    using n(2) by (cases l) (auto split: pointer.splits)
  have rnull: "right_field (?h a) = PNull \<longleftrightarrow> r = Null"
    using n(3) by (cases r) (auto split: pointer.splits)
  have rel: "list_all2 (represents (objects (snd (s1, snd st)))) ?q3 ?ns3"
    using ns(3) n(2,3) by (auto intro!: list_all2_appendI)
  have run: "st_levelOrder_for (St_Function f) k ?q3 (s1, snd st) = (Inr queue', st')"
    using Suc.prems(2) cb out1 queue by (simp add: Let_def cong: if_cong)
  from Suc.IH [OF rel run] obtain ns' where
    ns': "list_all2 (represents ?h) queue' ns'"
    "sum_list (map count_nodes ns') + k = sum_list (map count_nodes ?ns3)"
    by auto
  have "sum_list (map count_nodes ?ns3) + 1 = sum_list (map count_nodes ns)"
    using ns(1) n(1) lnull rnull by auto
  with ns' show ?case by (intro exI [of _ ns']) simp
qed

lemma st_levelOrder_while_frame:
  assumes frame: "\<And>q st'. snd (snd (f q st')) = snd st'"
  shows "list_all2 (represents (objects (snd st))) queue ns \<Longrightarrow>
     sum_list (map count_nodes ns) < rounds \<Longrightarrow>
     \<exists>out s'. st_levelOrder_while rounds (St_Function f) levelSize queue st =
        Some (out, (s', snd st))"
proof (induction rounds arbitrary: levelSize queue ns st)
  case 0
  then show ?case by simp
next
  case (Suc rounds)
  show ?case
  proof (cases "levelSize > 0")
    case False
    then show ?thesis by (cases st) simp
  next
    case True
    obtain out1 s1 where run:
      "st_levelOrder_for (St_Function f) levelSize queue st = (out1, (s1, snd st))"
      using st_levelOrder_for_frame [of f levelSize queue st] frame by blast
    show ?thesis
    proof (cases out1)
      case (Inl e)
      with run True show ?thesis by simp
    next
      case (Inr queue')
      with run have "st_levelOrder_for (St_Function f) levelSize queue st =
          (Inr queue', (s1, snd st))"
        by simp
      from st_levelOrder_for_queue [of f st queue ns levelSize queue' "(s1, snd st)",
          OF frame Suc.prems(1) this]
      obtain ns' where
        ns': "list_all2 (represents (objects (snd st))) queue' ns'"
        "sum_list (map count_nodes ns') + levelSize = sum_list (map count_nodes ns)"
        by blast
      from ns'(2) True Suc.prems(2) have "sum_list (map count_nodes ns') < rounds"
        by simp
      moreover from ns'(1) have
        "list_all2 (represents (objects (snd (s1, snd st)))) queue' ns'"
        by simp
      ultimately obtain out2 s2 where
        "st_levelOrder_while rounds (St_Function f) (length queue') queue' (s1, snd st) =
           Some (out2, (s2, snd st))"
        using Suc.IH by fastforce
      with run Inr True show ?thesis by simp
    qed
  qed
qed

lemma st_inOrderRec_push:
  "represents (objects m) p t \<Longrightarrow> height t < depth \<Longrightarrow>
     st_inOrderRec depth (St_Function st_push) p (acc, m) = Some (Inr (), (acc @ inorder t, m))"
proof (induction t arbitrary: depth p acc)
  case Null
  then obtain k where "depth = Suc k" by (cases depth) simp_all
  with Null show ?case by simp
next
  case (Node d l r)
  from Node.prems(2) obtain k where k: "depth = Suc k" by (cases depth) simp_all
  from Node.prems(1) obtain a where a: "p = PNode a" "data_field (objects m a) = d"
    "represents (objects m) (left_field (objects m a)) l"
    "represents (objects m) (right_field (objects m a)) r"
    by (cases p) simp_all
  from Node.prems(2) k have hl: "height l < k" and hr: "height r < k" by simp_all
  show ?case
    using Node.IH(1) [OF a(3) hl] Node.IH(2) [OF a(4) hr] a k
    by simp
qed

text \<open>
  The condition on the callback is needed: the traversal hands every node to the callback,
  and a callback that assigns to a field leaves a changed memory behind.
\<close>

lemma inOrder_assigning_callback:
  "\<exists>m'. st_inOrder 4 (St_Function assign_key) ((), example_memory) = Some (Inr (), ((), m')) \<and>
      data_field (objects example_memory 0) = 2 \<and> data_field (objects m' 0) = 0"
  by (simp add: st_inOrder_def example_memory_def example_objects_def numeral_nat)

text \<open>
  Claim C10, over the store. The tree object's root holds a tree \<open>t\<close>, the reference
  \<open>p\<close> holds a tree \<open>n\<close>, the bound exceeds their numbers of nodes, and the callback
  leaves the memory as it finds it, whatever reference and state it is given. Then
  \<^verbatim>\<open>find\<close> with a numeric argument, \<^verbatim>\<open>height\<close>, \<^verbatim>\<open>isBalanced\<close>, \<^verbatim>\<open>levelOrder\<close>
  and \<^verbatim>\<open>inOrder\<close> return, and the memory they leave is the memory they started in: the
  root reference and the three fields of every node object are the same. The first three
  return what the methods over tree values return.
\<close>

theorem queries_leave_memory_unchanged:
  assumes "represents (objects m) (tree_root m) t"
    and "represents (objects m) p n"
    and "count_nodes t < bound"
    and "count_nodes n < bound"
    and "\<And>q st. snd (snd (f q st)) = snd st"
  shows "(\<exists>r. st_find bound (Coercible x) m = Some (Inr r, m) \<and>
              represents (objects m) r (findRec x t)) \<and>
         st_height bound p m = Some (Inr (height n), m) \<and>
         st_isBalanced bound m = Some (Inr (isBalancedRec t), m) \<and>
         (\<exists>out s'. st_levelOrder bound (St_Function f) (s, m) = Some (out, (s', m))) \<and>
         (\<exists>out s'. st_inOrder bound (St_Function f) (s, m) = Some (out, (s', m)))"
proof -
  from assms(3) have ht: "height t < bound"
    using height_le_count_nodes [of t] by simp
  from assms(4) have hn: "height n < bound"
    using height_le_count_nodes [of n] by simp
  have find: "\<exists>r. st_find bound (Coercible x) m = Some (Inr r, m) \<and>
      represents (objects m) r (findRec x t)"
    using st_findRec_represents [OF assms(1) ht] by (simp add: st_find_def)
  have height: "st_height bound p m = Some (Inr (height n), m)"
    by (rule st_height_represents [OF assms(2) hn])
  have balanced: "st_isBalanced bound m = Some (Inr (isBalancedRec t), m)"
    using st_isBalancedRec_represents [OF assms(1) ht] by (simp add: st_isBalanced_def)
  have inorder: "\<exists>out s'. st_inOrder bound (St_Function f) (s, m) = Some (out, (s', m))"
    using st_inOrderRec_frame [of f "(s, m)" "tree_root m" t bound] assms(1,5) ht
    by (simp add: st_inOrder_def)
  have level: "\<exists>out s'. st_levelOrder bound (St_Function f) (s, m) = Some (out, (s', m))"
  proof (cases "tree_root m = PNull")
    case True
    then show ?thesis by (simp add: st_levelOrder_def)
  next
    case False
    have "list_all2 (represents (objects (snd (s, m)))) [tree_root m] [t]"
      using assms(1) by simp
    moreover have "sum_list (map count_nodes [t]) < bound"
      using assms(3) by simp
    ultimately have "\<exists>out s'. st_levelOrder_while bound (St_Function f) 1 [tree_root m] (s, m) =
        Some (out, (s', snd (s, m)))"
      using st_levelOrder_while_frame [of f "(s, m)" "[tree_root m]" "[t]" bound 1] assms(5)
      by blast
    with False show ?thesis by (simp add: st_levelOrder_def)
  qed
  from find height balanced level inorder show ?thesis
    by (intro conjI)
qed

theorem queries_leave_memory_unchanged_witness:
  "represents (objects example_memory) (tree_root example_memory)
     (Node 2 (Node 1 Null Null) (Node 3 Null Null)) \<and>
   represents (objects example_memory) (PNode 1) (Node 1 Null Null) \<and>
   count_nodes (Node (2::int) (Node 1 Null Null) (Node 3 Null Null)) < 4 \<and>
   count_nodes (Node (1::int) Null Null) < 4 \<and>
   (\<forall>q st. snd (snd (record_pointer q st)) = snd st) \<and>
   st_find 4 (Coercible 3) example_memory = Some (Inr (PNode 2), example_memory) \<and>
   st_height 4 (PNode 1) example_memory = Some (Inr 1, example_memory) \<and>
   st_isBalanced 4 example_memory = Some (Inr True, example_memory) \<and>
   st_levelOrder 4 (St_Function record_pointer) ([], example_memory) =
     Some (Inr (), ([PNode 0, PNode 1, PNode 2], example_memory)) \<and>
   st_inOrder 4 (St_Function record_pointer) ([], example_memory) =
     Some (Inr (), ([PNode 1, PNode 0, PNode 2], example_memory))"
proof -
  have frame: "snd (snd (record_pointer q st)) = snd st" for q st
    by (cases st) simp
  have r1: "represents (objects example_memory) (tree_root example_memory)
      (Node 2 (Node 1 Null Null) (Node 3 Null Null))"
    by (simp add: example_memory_def example_objects_def)
  have r2: "represents (objects example_memory) (PNode 1) (Node 1 Null Null)"
    by (simp add: example_memory_def example_objects_def)
  have c1: "count_nodes (Node (2::int) (Node 1 Null Null) (Node 3 Null Null)) < 4"
    and c2: "count_nodes (Node (1::int) Null Null) < 4"
    by simp_all
  have find: "st_find 4 (Coercible 3) example_memory = Some (Inr (PNode 2), example_memory)"
    by (simp add: st_find_def example_memory_def example_objects_def numeral_nat)
  have level: "st_levelOrder 4 (St_Function record_pointer) ([], example_memory) =
      Some (Inr (), ([PNode 0, PNode 1, PNode 2], example_memory))"
    by (simp add: st_levelOrder_def example_memory_def example_objects_def numeral_nat Let_def)
  have inord: "st_inOrder 4 (St_Function record_pointer) ([], example_memory) =
      Some (Inr (), ([PNode 1, PNode 0, PNode 2], example_memory))"
    by (simp add: st_inOrder_def example_memory_def example_objects_def numeral_nat)
  from queries_leave_memory_unchanged [OF r1 r2 c1 c2 frame, where x = 3 and s = "[]"] frame r1 r2 c1 c2
    find level inord
  show ?thesis by simp
qed

end
